theory Spec2Isabelle
  imports Main "HOL-Library.Word"
begin

section \<open>YAML path finder: data model\<close>

text \<open>
  The tool (\<^verbatim>\<open>src/tools/yaml-path-finder/yaml-path-finder.vue\<close>) keeps a parsed YAML
  document, the flat list of its dotted key paths, a search string and a comparison
  string. A JavaScript string is a sequence of UTF-16 code units; \<open>str\<close> turns an
  ASCII literal into one.
\<close>

type_synonym jschar = "16 word"
type_synonym jsstring = "jschar list"

definition str :: "string \<Rightarrow> jsstring" where
  "str s = map of_char s"

definition dot :: jschar where
  "dot = 0x2E"

text \<open>
  The values \<^verbatim>\<open>YAML.parse\<close> hands back: null, booleans, numbers, strings, arrays and
  plain objects. An object is the list of its own enumerable properties in the order
  \<^verbatim>\<open>for ... in\<close> visits them. A number is an integer (\<open>JNum\<close>, with both zeros
  as \<open>JNum 0\<close>), NaN (YAML \<^verbatim>\<open>.nan\<close>) or an infinity (YAML \<^verbatim>\<open>.inf\<close>, \<^verbatim>\<open>-.inf\<close>);
  numbers with a fractional part are left out. \<open>undefined\<close> is not a value of the
  tree and is \<open>None\<close> of \<open>jsval option\<close> where a lookup can yield it.
\<close>

datatype jsval =
    JNull
  | JBool bool
  | JNum int
  | JNaN
  | JInfinity
  | JNegInfinity
  | JStr jsstring
  | JArr "jsval list"
  | JObj "(jsstring \<times> jsval) list"

text \<open>\<^verbatim>\<open>typeof v === 'object'\<close>: true of objects, of arrays and of null.\<close>

fun typeofObject :: "jsval \<Rightarrow> bool" where
  "typeofObject JNull = True"
| "typeofObject (JArr xs) = True"
| "typeofObject (JObj kvs) = True"
| "typeofObject v = False"

text \<open>JavaScript truthiness: null, false, 0, NaN and the empty string are falsy.\<close>

fun truthy :: "jsval \<Rightarrow> bool" where
  "truthy JNull = False"
| "truthy (JBool b) = b"
| "truthy (JNum n) = (n \<noteq> 0)"
| "truthy JNaN = False"
| "truthy JInfinity = True"
| "truthy JNegInfinity = True"
| "truthy (JStr s) = (s \<noteq> [])"
| "truthy (JArr xs) = True"
| "truthy (JObj kvs) = True"

subsection \<open>Strings\<close>

text \<open>\<^verbatim>\<open>String(i)\<close> for an array index: its decimal digits.\<close>

fun toString :: "nat \<Rightarrow> jsstring" where
  "toString n = (if n < 10 then [of_nat (48 + n)]
                 else toString (n div 10) @ [of_nat (48 + n mod 10)])"

declare toString.simps [simp del]

text \<open>\<^verbatim>\<open>s.split('.')\<close>: cut at every dot; the empty string gives one empty part.\<close>

fun split :: "jsstring \<Rightarrow> jsstring list" where
  "split [] = [[]]"
| "split (c # cs) =
     (if c = dot then [] # split cs
      else (let r = split cs in (c # hd r) # tl r))"

text \<open>\<^verbatim>\<open>parts.join('.')\<close>.\<close>

fun join :: "jsstring list \<Rightarrow> jsstring" where
  "join [] = []"
| "join [p] = p"
| "join (p # q # ps) = p @ dot # join (q # ps)"

text \<open>\<^verbatim>\<open>key.startsWith(value)\<close> and \<^verbatim>\<open>key.endsWith(value)\<close>.\<close>

definition startsWith :: "jsstring \<Rightarrow> jsstring \<Rightarrow> bool" where
  "startsWith key v = (take (length v) key = v)"

definition endsWith :: "jsstring \<Rightarrow> jsstring \<Rightarrow> bool" where
  "endsWith key v = (length v \<le> length key \<and> drop (length key - length v) key = v)"

section \<open>Key indexer\<close>

text \<open>
  The properties \<^verbatim>\<open>for (const key in obj)\<close> visits, with their values \<^verbatim>\<open>obj[key]\<close>:
  the entries of an object, the indices of an array, the code-unit positions of a
  string, nothing for null, a number or a boolean.
\<close>

fun forIn :: "jsval \<Rightarrow> (jsstring \<times> jsval) list" where
  "forIn (JObj kvs) = kvs"
| "forIn (JArr xs) = map (\<lambda>(i, v). (toString i, v)) (enumerate 0 xs)"
| "forIn (JStr s) = map (\<lambda>(i, c). (toString i, JStr [c])) (enumerate 0 s)"
| "forIn v = []"

text \<open>
  \<^verbatim>\<open>getDeepKeys\<close> (lines 17-29): every key is pushed, and when its value has type
  \<^verbatim>\<open>'object'\<close> the keys of the value follow, each behind \<^verbatim>\<open>key + '.'\<close>.
\<close>

function getDeepKeys :: "jsval \<Rightarrow> jsstring list" where
  "getDeepKeys obj =
     concat (map (\<lambda>(key, v).
                key # (if typeofObject v
                       then map (\<lambda>subkey. key @ dot # subkey) (getDeepKeys v)
                       else []))
             (forIn obj))"
  by pat_completeness auto
termination
proof (relation "measure size")
  fix obj :: jsval and x :: "jsstring \<times> jsval" and key v
  assume mem: "x \<in> set (forIn obj)" and x: "(key, v) = x" and ty: "typeofObject v"
  show "(v, obj) \<in> measure size"
  proof (cases obj)
    case (JArr xs)
    with mem x have "v \<in> set xs"
      by (auto simp: in_set_enumerate_eq)
    then have "size v \<le> size_list size xs"
      by (simp add: size_list_estimation')
    with JArr show ?thesis by simp
  next
    case (JObj kvs)
    with mem x have "(key, v) \<in> set kvs" by simp
    then have "size_prod (\<lambda>_. 0) size (key, v) \<le> size_list (size_prod (\<lambda>_. 0) size) kvs"
      by (rule size_list_estimation') simp
    with JObj show ?thesis by simp
  next
    case (JStr s)
    with mem x ty show ?thesis by auto
  qed (use mem in auto)
qed simp

declare getDeepKeys.simps [simp del]

section \<open>Property lookup and serialisation\<close>

text \<open>
  Modelled from the spec: \<^verbatim>\<open>propertyOf\<close> is imported from the underscore library and is
  not part of the sources. The spec's exact tier walks the tree from the root,
  descending into the value of each segment in turn; the walk yields a value if every
  segment resolves to a present key. \<open>getProp obj key\<close> is the own property
  \<^verbatim>\<open>obj[key]\<close> (\<open>None\<close> for \<^verbatim>\<open>undefined\<close>): an entry of an object, an element or
  the length of an array, a code unit or the length of a string. Properties inherited
  from a prototype are functions and have no counterpart in \<open>jsval\<close>.
\<close>

fun getProp :: "jsval \<Rightarrow> jsstring \<Rightarrow> jsval option" where
  "getProp (JObj kvs) key = map_of kvs key"
| "getProp (JArr xs) key =
     (if key = str ''length'' then Some (JNum (int (length xs)))
      else map_of (forIn (JArr xs)) key)"
| "getProp (JStr s) key =
     (if key = str ''length'' then Some (JNum (int (length s)))
      else map_of (forIn (JStr s)) key)"
| "getProp v key = None"

text \<open>
  Modelled from the spec: underscore's \<^verbatim>\<open>deepGet\<close> loop, which stops with
  \<^verbatim>\<open>undefined\<close> as soon as the current object is null or undefined, and yields
  \<^verbatim>\<open>undefined\<close> for an empty path.
\<close>

fun deepGetLoop :: "jsval option \<Rightarrow> jsstring list \<Rightarrow> jsval option" where
  "deepGetLoop obj [] = obj"
| "deepGetLoop None (p # ps) = None"
| "deepGetLoop (Some JNull) (p # ps) = None"
| "deepGetLoop (Some obj) (p # ps) = deepGetLoop (getProp obj p) ps"

definition deepGet :: "jsval \<Rightarrow> jsstring list \<Rightarrow> jsval option" where
  "deepGet obj path = (if path = [] then None else deepGetLoop (Some obj) path)"

text \<open>
  Modelled from the spec: \<^verbatim>\<open>propertyOf(obj)(path)\<close>; for a null \<open>obj\<close> it is the
  function that returns \<^verbatim>\<open>undefined\<close>.
\<close>

definition propertyOf :: "jsval \<Rightarrow> jsstring list \<Rightarrow> jsval option" where
  "propertyOf obj path = (if obj = JNull then None else deepGet obj path)"

text \<open>
  Modelled from the spec: \<^verbatim>\<open>JSON.stringify(v, null, 2)\<close>, the pretty-printed text with
  2-space indentation, is a built-in of the language. NaN and the infinities are
  written \<^verbatim>\<open>null\<close>. Strings are quoted with the
  escapes of ECMAScript's QuoteJSONString: a well-formed surrogate pair is kept, a lone
  surrogate and a control character are written \<^verbatim>\<open>\uXXXX\<close>.
\<close>

definition hexDigit :: "nat \<Rightarrow> jschar" where
  "hexDigit d = (if d < 10 then of_nat (48 + d) else of_nat (87 + d))"

definition unicodeEscape :: "jschar \<Rightarrow> jsstring" where
  "unicodeEscape c =
     (let n = unat c
      in [0x5C, 0x75, hexDigit (n div 4096), hexDigit (n div 256 mod 16),
          hexDigit (n div 16 mod 16), hexDigit (n mod 16)])"

definition isLeadSurrogate :: "jschar \<Rightarrow> bool" where
  "isLeadSurrogate c = (0xD800 \<le> c \<and> c \<le> 0xDBFF)"

definition isTrailSurrogate :: "jschar \<Rightarrow> bool" where
  "isTrailSurrogate c = (0xDC00 \<le> c \<and> c \<le> 0xDFFF)"

definition quoteUnit :: "jschar \<Rightarrow> jsstring" where
  "quoteUnit c =
     (if c = 0x08 then [0x5C, 0x62]
      else if c = 0x09 then [0x5C, 0x74]
      else if c = 0x0A then [0x5C, 0x6E]
      else if c = 0x0C then [0x5C, 0x66]
      else if c = 0x0D then [0x5C, 0x72]
      else if c = 0x22 then [0x5C, 0x22]
      else if c = 0x5C then [0x5C, 0x5C]
      else if c < 0x20 \<or> isLeadSurrogate c \<or> isTrailSurrogate c then unicodeEscape c
      else [c])"

fun quoteBody :: "jsstring \<Rightarrow> jsstring" where
  "quoteBody [] = []"
| "quoteBody [c] = quoteUnit c"
| "quoteBody (c # d # cs) =
     (if isLeadSurrogate c \<and> isTrailSurrogate d then c # d # quoteBody cs
      else quoteUnit c @ quoteBody (d # cs))"

definition quoteJSONString :: "jsstring \<Rightarrow> jsstring" where
  "quoteJSONString s = 0x22 # quoteBody s @ [0x22]"

definition numberToString :: "int \<Rightarrow> jsstring" where
  "numberToString n = (if n < 0 then 0x2D # toString (nat (- n)) else toString (nat n))"

fun joinWith :: "jsstring \<Rightarrow> jsstring list \<Rightarrow> jsstring" where
  "joinWith sep [] = []"
| "joinWith sep [p] = p"
| "joinWith sep (p # q # ps) = p @ sep @ joinWith sep (q # ps)"

fun serialize :: "jsstring \<Rightarrow> jsval \<Rightarrow> jsstring" where
  "serialize ind JNull = str ''null''"
| "serialize ind (JBool b) = (if b then str ''true'' else str ''false'')"
| "serialize ind (JNum n) = numberToString n"
| "serialize ind JNaN = str ''null''"
| "serialize ind JInfinity = str ''null''"
| "serialize ind JNegInfinity = str ''null''"
| "serialize ind (JStr s) = quoteJSONString s"
| "serialize ind (JArr xs) =
     (if xs = [] then str ''[]''
      else str ''['' @ 0x0A # (ind @ str ''  '')
           @ joinWith (str '','' @ 0x0A # (ind @ str ''  ''))
               (map (serialize (ind @ str ''  '')) xs)
           @ 0x0A # ind @ str '']'')"
| "serialize ind (JObj kvs) =
     (if kvs = [] then str ''{}''
      else str ''{'' @ 0x0A # (ind @ str ''  '')
           @ joinWith (str '','' @ 0x0A # (ind @ str ''  ''))
               (map (\<lambda>(k, v). quoteJSONString k @ str '': '' @ serialize (ind @ str ''  '') v) kvs)
           @ 0x0A # ind @ str ''}'')"

definition JSON_stringify :: "jsval \<Rightarrow> jsstring" where
  "JSON_stringify v = serialize [] v"

section \<open>Component state\<close>

text \<open>
  The refs of the component (lines 31-35) and the console that \<^verbatim>\<open>console.error\<close>
  writes to. \<^verbatim>\<open>YAML.parse\<close> and \<^verbatim>\<open>diffChars\<close> belong to external libraries and are
  parameters of the operations that call them: a parser returns the tree or throws.
\<close>

datatype error = ParseError jsstring

type_synonym parser = "jsstring \<Rightarrow> error + jsval"

record state =
  parsedYaml :: jsval
  keys :: "jsstring list"
  search :: jsstring
  comparison :: jsstring
  yamlInput :: jsstring
  console :: "error list"

text \<open>The sample document of lines 7-13; the emoji is a surrogate pair.\<close>

definition wave :: jsstring where
  "wave = [0xD83D, 0xDC4B]"

definition defaultYaml :: jsstring where
  "defaultYaml =
     str ''hello:'' @ 0x0A # str ''  from:'' @ 0x0A # str ''    your:'' @ 0x0A
     # str ''      favourite:'' @ 0x0A # str ''        yaml:'' @ 0x0A
     # str ''          tool: '' @ wave @ [0x0A]"

text \<open>
  Modelled from the spec: the tree \<^verbatim>\<open>YAML.parse(defaultYaml.trim())\<close> of line 15, which
  the spec gives as \<^verbatim>\<open>{hello: {from: {your: {favourite: {yaml: {tool: "..."}}}}}}\<close>;
  the parser itself is an external library.
\<close>

definition parsedDefaultYaml :: jsval where
  "parsedDefaultYaml =
     JObj [(str ''hello'', JObj [(str ''from'', JObj [(str ''your'',
       JObj [(str ''favourite'', JObj [(str ''yaml'',
         JObj [(str ''tool'', JStr wave)])])])])])]"

definition initialState :: state where
  "initialState =
     \<lparr>parsedYaml = parsedDefaultYaml, keys = getDeepKeys parsedDefaultYaml,
      search = [], comparison = [], yamlInput = defaultYaml, console = []\<rparr>"

section \<open>Document loader\<close>

text \<open>
  \<^verbatim>\<open>updateYaml\<close> (lines 37-48). An empty input is skipped. Otherwise the text is
  parsed; a tree replaces the document and its index, an exception is caught and logged.
\<close>

definition updateYaml :: "parser \<Rightarrow> state \<Rightarrow> state" where
  "updateYaml parse st =
     (if yamlInput st \<noteq> [] then
        (case parse (yamlInput st) of
           Inr loadedYaml \<Rightarrow>
             st\<lparr>parsedYaml := loadedYaml, keys := getDeepKeys loadedYaml\<rparr>
         | Inl err \<Rightarrow> st\<lparr>console := console st @ [err]\<rparr>)
      else st)"

section \<open>Diff renderer\<close>

text \<open>A change object of \<^verbatim>\<open>diffChars\<close>: the flags and the text of the segment.\<close>

record change =
  added :: bool
  removed :: bool
  val :: jsstring

type_synonym differ = "jsstring \<Rightarrow> jsstring \<Rightarrow> change list"

definition dq :: jsstring where
  "dq = [0x22]"

definition party :: jsstring where
  "party = [0xD83C, 0xDF89]"

definition valuesMatch :: jsstring where
  "valuesMatch =
     str ''<span class='' @ dq @ str ''text-success'' @ dq @ str ''>Values match! ''
     @ party @ str ''</span>''"

definition renderChange :: "change \<Rightarrow> jsstring" where
  "renderChange c =
     (if removed c then
        str ''<span class='' @ dq @ str ''text-error'' @ dq @ str ''>'' @ val c @ str ''</span>''
      else if added c then
        str ''<span class='' @ dq @ str ''text-success'' @ dq @ str ''>'' @ val c @ str ''</span>''
      else str ''<span>'' @ val c @ str ''</span>'')"

text \<open>\<^verbatim>\<open>renderComparison\<close> (lines 50-62); \<^verbatim>\<open>.join('')\<close> is \<open>concat\<close>.\<close>

definition renderComparison :: "differ \<Rightarrow> state \<Rightarrow> jsstring \<Rightarrow> jsstring" where
  "renderComparison diffChars st foundValue =
     (if foundValue = comparison st then valuesMatch
      else concat (map renderChange (diffChars foundValue (comparison st))))"

section \<open>Path resolver\<close>

text \<open>\<^verbatim>\<open>exactMatch\<close> (lines 64-73): the path and the serialised value, or null.\<close>

definition exactMatch :: "state \<Rightarrow> jsstring list \<Rightarrow> (jsstring \<times> jsstring) option" where
  "exactMatch st parts =
     (case propertyOf (parsedYaml st) parts of
        None \<Rightarrow> None
      | Some foundValue \<Rightarrow>
          (if truthy foundValue then Some (join parts, JSON_stringify foundValue)
           else None))"

text \<open>\<^verbatim>\<open>prefixMatch\<close> (lines 75-85): the count and the keys found, or null.\<close>

definition prefixMatch :: "state \<Rightarrow> jsstring \<Rightarrow> (nat \<times> jsstring list) option" where
  "prefixMatch st v =
     (let foundKeys = filter (\<lambda>key. startsWith key v) (keys st)
      in if length foundKeys = 0 then None else Some (length foundKeys, foundKeys))"

text \<open>\<^verbatim>\<open>suffixMatch\<close> (lines 87-97).\<close>

definition suffixMatch :: "state \<Rightarrow> jsstring \<Rightarrow> (nat \<times> jsstring list) option" where
  "suffixMatch st v =
     (let foundKeys = filter (\<lambda>key. endsWith key v) (keys st)
      in if length foundKeys = 0 then None else Some (length foundKeys, foundKeys))"

text \<open>
  The object the computed \<^verbatim>\<open>searchResult\<close> (lines 99-112) holds, by its \<^verbatim>\<open>type\<close>
  field: \<^verbatim>\<open>'exact'\<close> with path and value, \<^verbatim>\<open>'suffix'\<close> and \<^verbatim>\<open>'prefix'\<close> with count
  and keys, \<^verbatim>\<open>'none'\<close>. The computed itself is null (\<open>None\<close>) for an empty search.
\<close>

datatype result =
    Exact jsstring jsstring
  | Suffix nat "jsstring list"
  | Prefix nat "jsstring list"
  | NoMatch

definition searchResult :: "state \<Rightarrow> result option" where
  "searchResult st =
     (if search st = [] then None
      else (case exactMatch st (split (search st)) of
              Some (path, v) \<Rightarrow> Some (Exact path v)
            | None \<Rightarrow>
                (case suffixMatch st (search st) of
                   Some (count, foundKeys) \<Rightarrow> Some (Suffix count foundKeys)
                 | None \<Rightarrow>
                     (case prefixMatch st (search st) of
                        Some (count, foundKeys) \<Rightarrow> Some (Prefix count foundKeys)
                      | None \<Rightarrow> Some NoMatch))))"

text \<open>
  The comparison pane of the template (lines 145-162): shown for an exact result, its
  content is \<^verbatim>\<open>renderComparison(searchResult.path)\<close>.
\<close>

definition comparisonArgument :: "result \<Rightarrow> jsstring option" where
  "comparisonArgument r = (case r of Exact path v \<Rightarrow> Some path | _ \<Rightarrow> None)"

definition comparisonPane :: "differ \<Rightarrow> state \<Rightarrow> jsstring option" where
  "comparisonPane diffChars st =
     (case searchResult st of
        None \<Rightarrow> None
      | Some r \<Rightarrow> map_option (renderComparison diffChars st) (comparisonArgument r))"

section \<open>Well-formed trees and reachable paths\<close>

text \<open>
  A JavaScript object has each property name once; \<open>wellFormed\<close> says so of the
  lists that stand for objects. \<open>dotFreeKeys\<close> holds of a tree none of whose
  mapping keys contains a dot.
\<close>

fun wellFormed :: "jsval \<Rightarrow> bool" where
  "wellFormed (JObj kvs) = (distinct (map fst kvs) \<and> (\<forall>(k, v) \<in> set kvs. wellFormed v))"
| "wellFormed (JArr xs) = (\<forall>v \<in> set xs. wellFormed v)"
| "wellFormed v = True"

fun dotFreeKeys :: "jsval \<Rightarrow> bool" where
  "dotFreeKeys (JObj kvs) = (\<forall>(k, v) \<in> set kvs. dot \<notin> set k \<and> dotFreeKeys v)"
| "dotFreeKeys (JArr xs) = (\<forall>v \<in> set xs. dotFreeKeys v)"
| "dotFreeKeys v = True"

text \<open>
  The spec's mapping-reachable paths, as key sequences: a non-empty sequence of keys
  each of which is present in the mapping reached so far.
\<close>

fun mappingReachable :: "jsval \<Rightarrow> jsstring list \<Rightarrow> bool" where
  "mappingReachable (JObj kvs) (k # ks) =
     (case map_of kvs k of
        None \<Rightarrow> False
      | Some v \<Rightarrow> ks = [] \<or> mappingReachable v ks)"
| "mappingReachable v ks = False"

section \<open>Document loader: failed and skipped updates\<close>

text \<open>
  C7. When parsing the input text fails, the document tree and the key index stay as
  they were, the error is appended to the console, and \<open>updateYaml\<close> returns
  normally: its result is the old state with one more console entry. The parser is
  called on a non-empty text only, so only there can it fail and log.
\<close>

theorem updateYaml_parse_failure:
  assumes "parse (yamlInput st) = Inl err"
  shows "parsedYaml (updateYaml parse st) = parsedYaml st
       \<and> keys (updateYaml parse st) = keys st
       \<and> (yamlInput st \<noteq> [] \<longrightarrow>
            updateYaml parse st = st\<lparr>console := console st @ [err]\<rparr>)"
  using assms by (simp add: updateYaml_def)

theorem updateYaml_parse_failure_witness:
  "parsedYaml (updateYaml (\<lambda>t. Inl (ParseError (str ''bad indentation'')))
                 (initialState\<lparr>yamlInput := str ''a: b: c''\<rparr>)) = parsedDefaultYaml
   \<and> keys (updateYaml (\<lambda>t. Inl (ParseError (str ''bad indentation'')))
                 (initialState\<lparr>yamlInput := str ''a: b: c''\<rparr>)) = getDeepKeys parsedDefaultYaml
   \<and> console (updateYaml (\<lambda>t. Inl (ParseError (str ''bad indentation'')))
                 (initialState\<lparr>yamlInput := str ''a: b: c''\<rparr>))
       = [ParseError (str ''bad indentation'')]"
  using updateYaml_parse_failure
    [of "\<lambda>t. Inl (ParseError (str ''bad indentation''))"
        "initialState\<lparr>yamlInput := str ''a: b: c''\<rparr>"
        "ParseError (str ''bad indentation'')"]
  by (simp add: initialState_def str_def)

text \<open>
  C9. With an empty input text \<open>updateYaml\<close> returns the state it was given, whatever
  the parser is: the parser's answer plays no part, the tree and the index are kept and
  nothing is logged.
\<close>

theorem updateYaml_empty_input:
  "yamlInput st = [] \<Longrightarrow> updateYaml parse st = st"
  by (simp add: updateYaml_def)

theorem updateYaml_empty_input_witness:
  "updateYaml (\<lambda>t. Inl (ParseError [])) (initialState\<lparr>yamlInput := []\<rparr>)
     = initialState\<lparr>yamlInput := []\<rparr>"
  using updateYaml_empty_input
    [of "initialState\<lparr>yamlInput := []\<rparr>" "\<lambda>t. Inl (ParseError [])"]
  by simp

section \<open>Diff renderer: the match outcome\<close>

lemma renderChange_unchanged:
  "\<not> added c \<Longrightarrow> \<not> removed c \<Longrightarrow> renderChange c = str ''<span>'' @ val c @ str ''</span>''"
  by (simp add: renderChange_def)

lemma unchanged_not_valuesMatch:
  assumes "\<forall>c \<in> set cs. \<not> added c \<and> \<not> removed c"
  shows "concat (map renderChange cs) \<noteq> valuesMatch"
proof (cases cs)
  case Nil
  then show ?thesis by (simp add: valuesMatch_def str_def)
next
  case (Cons c cs')
  with assms have "concat (map renderChange cs) ! 5 = 0x3E"
    by (simp add: renderChange_unchanged str_def)
  moreover have "valuesMatch ! 5 = 0x20"
    by (simp add: valuesMatch_def str_def)
  ultimately show ?thesis by auto
qed

text \<open>
  C8. Comparing a string with itself gives the text \<open>valuesMatch\<close>, for every string
  and so for the empty one, without a call of the differ. That text is not empty, and no
  list of unchanged segments, empty or not, renders to it.
\<close>

theorem renderComparison_same:
  "renderComparison diffChars (st\<lparr>comparison := a\<rparr>) a = valuesMatch
   \<and> renderComparison diffChars (st\<lparr>comparison := []\<rparr>) [] = valuesMatch
   \<and> valuesMatch \<noteq> []
   \<and> ((\<forall>c \<in> set cs. \<not> added c \<and> \<not> removed c) \<longrightarrow>
        concat (map renderChange cs) \<noteq> valuesMatch)"
  by (simp add: renderComparison_def unchanged_not_valuesMatch)
     (simp add: valuesMatch_def str_def)

theorem renderComparison_same_witness:
  "renderComparison (\<lambda>a b. [\<lparr>added = False, removed = False, val = a\<rparr>])
       (initialState\<lparr>comparison := str ''hello''\<rparr>) (str ''hello'') = valuesMatch
   \<and> concat (map renderChange [\<lparr>added = False, removed = False, val = str ''hello''\<rparr>])
       \<noteq> valuesMatch"
  using renderComparison_same
    [where diffChars = "\<lambda>a b. [\<lparr>added = False, removed = False, val = a\<rparr>]"
       and st = initialState and a = "str ''hello''"
       and cs = "[\<lparr>added = False, removed = False, val = str ''hello''\<rparr>]"]
  by simp

section \<open>Path resolver: tiers\<close>

lemma startsWith_iff: "startsWith key v \<longleftrightarrow> (\<exists>rest. key = v @ rest)"
proof
  assume "startsWith key v"
  then have "key = v @ drop (length v) key"
    unfolding startsWith_def by (metis append_take_drop_id)
  then show "\<exists>rest. key = v @ rest" ..
next
  assume "\<exists>rest. key = v @ rest"
  then show "startsWith key v" by (auto simp: startsWith_def)
qed

lemma endsWith_iff: "endsWith key v \<longleftrightarrow> (\<exists>front. key = front @ v)"
proof
  assume "endsWith key v"
  then have "key = take (length key - length v) key @ v"
    unfolding endsWith_def by (metis append_take_drop_id)
  then show "\<exists>front. key = front @ v" ..
next
  assume "\<exists>front. key = front @ v"
  then show "endsWith key v" by (auto simp: endsWith_def)
qed

lemma endsWith_refl: "endsWith key key"
  by (simp add: endsWith_def)

lemma exactMatch_keys: "exactMatch (st\<lparr>keys := ks\<rparr>) parts = exactMatch st parts"
  by (simp add: exactMatch_def)

text \<open>
  C2. For a non-empty search the result is Exact exactly when the exact tier finds a
  truthy value, and it stays that result whatever the key index holds, which is all the
  suffix and prefix tiers read. The result is a suffix match only when the exact tier
  found nothing, a prefix match only when the exact and suffix tiers found nothing, and
  NoMatch only when all three found nothing.
\<close>

theorem searchResult_tier_priority:
  assumes "search st \<noteq> []"
  shows "(searchResult st = Some (Exact p v) \<longleftrightarrow>
            exactMatch st (split (search st)) = Some (p, v))
       \<and> (exactMatch st (split (search st)) = Some (p, v) \<longrightarrow>
            searchResult (st\<lparr>keys := ks'\<rparr>) = Some (Exact p v))
       \<and> (searchResult st = Some (Suffix n ks) \<longleftrightarrow>
            exactMatch st (split (search st)) = None
            \<and> suffixMatch st (search st) = Some (n, ks))
       \<and> (searchResult st = Some (Prefix n ks) \<longleftrightarrow>
            exactMatch st (split (search st)) = None
            \<and> suffixMatch st (search st) = None
            \<and> prefixMatch st (search st) = Some (n, ks))
       \<and> (searchResult st = Some NoMatch \<longleftrightarrow>
            exactMatch st (split (search st)) = None
            \<and> suffixMatch st (search st) = None
            \<and> prefixMatch st (search st) = None)"
  using assms by (auto simp: searchResult_def exactMatch_keys split: option.splits)

theorem searchResult_tier_priority_witness:
  "searchResult (initialState\<lparr>search := str ''tool''\<rparr>)
     = Some (Suffix 1 [str ''hello.from.your.favourite.yaml.tool''])
   \<and> searchResult (initialState\<lparr>search := str ''hello.from.your.favourite.yaml.tool'',
                                  keys := []\<rparr>)
     = Some (Exact (str ''hello.from.your.favourite.yaml.tool'') (dq @ wave @ dq))"
proof -
  have q1: "search (initialState\<lparr>search := str ''tool''\<rparr>) \<noteq> []"
    by code_simp
  have ex1: "exactMatch (initialState\<lparr>search := str ''tool''\<rparr>)
               (split (search (initialState\<lparr>search := str ''tool''\<rparr>))) = None"
    by code_simp
  have su1: "suffixMatch (initialState\<lparr>search := str ''tool''\<rparr>)
               (search (initialState\<lparr>search := str ''tool''\<rparr>))
             = Some (1, [str ''hello.from.your.favourite.yaml.tool''])"
    by code_simp
  have q2: "search (initialState\<lparr>search := str ''hello.from.your.favourite.yaml.tool''\<rparr>) \<noteq> []"
    by code_simp
  have ex2: "exactMatch (initialState\<lparr>search := str ''hello.from.your.favourite.yaml.tool''\<rparr>)
               (split (search (initialState\<lparr>search := str ''hello.from.your.favourite.yaml.tool''\<rparr>)))
             = Some (str ''hello.from.your.favourite.yaml.tool'', dq @ wave @ dq)"
    by code_simp
  from searchResult_tier_priority
         [OF q1, where n = 1 and ks = "[str ''hello.from.your.favourite.yaml.tool'']"] ex1 su1
  have "searchResult (initialState\<lparr>search := str ''tool''\<rparr>)
          = Some (Suffix 1 [str ''hello.from.your.favourite.yaml.tool''])"
    by blast
  moreover from searchResult_tier_priority
         [OF q2, where p = "str ''hello.from.your.favourite.yaml.tool''"
            and v = "dq @ wave @ dq" and ks' = "[]"] ex2
  have "searchResult (initialState\<lparr>search := str ''hello.from.your.favourite.yaml.tool'',
                                    keys := []\<rparr>)
          = Some (Exact (str ''hello.from.your.favourite.yaml.tool'') (dq @ wave @ dq))"
    by blast
  ultimately show ?thesis by blast
qed

text \<open>
  C10. A suffix or prefix result carries as count the length of its key list, which is
  at least 1, and its keys are the keys of the index that end with (start with) the
  search string, in index order. By \<open>endsWith_iff\<close> and \<open>startsWith_iff\<close> these are
  the keys of the form \<open>front @ search\<close> and \<open>search @ rest\<close>.
\<close>

theorem match_result_shape:
  "(searchResult st = Some (Suffix n ks) \<longrightarrow>
      n = length ks \<and> 1 \<le> n
      \<and> ks = filter (\<lambda>key. endsWith key (search st)) (keys st))
   \<and> (searchResult st = Some (Prefix n ks) \<longrightarrow>
      n = length ks \<and> 1 \<le> n
      \<and> ks = filter (\<lambda>key. startsWith key (search st)) (keys st))"
  by (auto simp: searchResult_def suffixMatch_def prefixMatch_def Let_def Suc_le_eq
           split: option.splits if_splits)

theorem match_result_shape_witness:
  "((1::nat) = length [str ''hello.from.your.favourite.yaml.tool''] \<and> (1::nat) \<le> 1
    \<and> [str ''hello.from.your.favourite.yaml.tool'']
        = filter (\<lambda>key. endsWith key (search (initialState\<lparr>search := str ''tool''\<rparr>)))
            (keys (initialState\<lparr>search := str ''tool''\<rparr>)))
   \<and> ((6::nat) = length (getDeepKeys parsedDefaultYaml) \<and> (1::nat) \<le> 6
    \<and> getDeepKeys parsedDefaultYaml
        = filter (\<lambda>key. startsWith key (search (initialState\<lparr>search := str ''hell''\<rparr>)))
            (keys (initialState\<lparr>search := str ''hell''\<rparr>)))"
proof -
  have s: "searchResult (initialState\<lparr>search := str ''tool''\<rparr>)
             = Some (Suffix 1 [str ''hello.from.your.favourite.yaml.tool''])"
    by code_simp
  have p: "searchResult (initialState\<lparr>search := str ''hell''\<rparr>)
             = Some (Prefix 6 (getDeepKeys parsedDefaultYaml))"
    by code_simp
  from match_result_shape
         [where st = "initialState\<lparr>search := str ''tool''\<rparr>" and n = 1
            and ks = "[str ''hello.from.your.favourite.yaml.tool'']"] s
  have "(1::nat) = length [str ''hello.from.your.favourite.yaml.tool''] \<and> (1::nat) \<le> 1
        \<and> [str ''hello.from.your.favourite.yaml.tool'']
            = filter (\<lambda>key. endsWith key (search (initialState\<lparr>search := str ''tool''\<rparr>)))
                (keys (initialState\<lparr>search := str ''tool''\<rparr>))"
    by blast
  moreover from match_result_shape
         [where st = "initialState\<lparr>search := str ''hell''\<rparr>" and n = 6
            and ks = "getDeepKeys parsedDefaultYaml"] p
  have "(6::nat) = length (getDeepKeys parsedDefaultYaml) \<and> (1::nat) \<le> 6
        \<and> getDeepKeys parsedDefaultYaml
            = filter (\<lambda>key. startsWith key (search (initialState\<lparr>search := str ''hell''\<rparr>)))
                (keys (initialState\<lparr>search := str ''hell''\<rparr>))"
    by blast
  ultimately show ?thesis by blast
qed

section \<open>The comparison pane\<close>

text \<open>
  C3, as the claim states it, fails. The search below finds the leaf of the sample
  document, whose serialised value is the quoted emoji; the comparison string is the
  path. The template hands the path to \<open>renderComparison\<close>, so the pane shows the
  match text, while a comparison of the serialised value with the same string does
  not: the two strings share no character, for which \<^verbatim>\<open>diffChars\<close> reports the first
  removed and the second added.
\<close>

theorem comparisonPane_counterexample:
  "searchResult (initialState\<lparr>search := str ''hello.from.your.favourite.yaml.tool'',
                               comparison := str ''hello.from.your.favourite.yaml.tool''\<rparr>)
     = Some (Exact (str ''hello.from.your.favourite.yaml.tool'') (dq @ wave @ dq))
   \<and> comparisonArgument (Exact (str ''hello.from.your.favourite.yaml.tool'') (dq @ wave @ dq))
     = Some (str ''hello.from.your.favourite.yaml.tool'')
   \<and> comparisonPane
        (\<lambda>a b. [\<lparr>added = False, removed = True, val = a\<rparr>,
                 \<lparr>added = True, removed = False, val = b\<rparr>])
        (initialState\<lparr>search := str ''hello.from.your.favourite.yaml.tool'',
                      comparison := str ''hello.from.your.favourite.yaml.tool''\<rparr>)
     = Some valuesMatch
   \<and> renderComparison
        (\<lambda>a b. [\<lparr>added = False, removed = True, val = a\<rparr>,
                 \<lparr>added = True, removed = False, val = b\<rparr>])
        (initialState\<lparr>search := str ''hello.from.your.favourite.yaml.tool'',
                      comparison := str ''hello.from.your.favourite.yaml.tool''\<rparr>)
        (dq @ wave @ dq)
     \<noteq> valuesMatch"
  by code_simp

text \<open>
  C3, amended. Whenever the search result is Exact, the pane is the rendering of the
  found path against the comparison string: the match text when the two are equal,
  and otherwise the segments of \<open>diffChars\<close> called with the path as first and the
  comparison string as second argument. The serialised value plays no part.
\<close>

theorem comparisonPane_diffs_path:
  "searchResult st = Some (Exact p v) \<Longrightarrow>
   comparisonPane diffChars st =
     Some (if p = comparison st then valuesMatch
           else concat (map renderChange (diffChars p (comparison st))))"
  by (simp add: comparisonPane_def comparisonArgument_def renderComparison_def)

theorem comparisonPane_diffs_path_witness:
  "comparisonPane
     (\<lambda>a b. [\<lparr>added = False, removed = True, val = a\<rparr>,
              \<lparr>added = True, removed = False, val = b\<rparr>])
     (initialState\<lparr>search := str ''hello.from'', comparison := str ''x''\<rparr>)
   = Some (concat (map renderChange
        [\<lparr>added = False, removed = True, val = str ''hello.from''\<rparr>,
         \<lparr>added = True, removed = False, val = str ''x''\<rparr>]))"
proof -
  have found:
    "searchResult (initialState\<lparr>search := str ''hello.from'', comparison := str ''x''\<rparr>)
       = Some (Exact (str ''hello.from'')
           (JSON_stringify (JObj [(str ''your'', JObj [(str ''favourite'',
              JObj [(str ''yaml'', JObj [(str ''tool'', JStr wave)])])])])))"
    by code_simp
  have differ: "str ''hello.from'' \<noteq> str ''x''"
    by (simp add: str_def)
  show ?thesis
    using comparisonPane_diffs_path [OF found] differ by simp
qed

section \<open>The sample document\<close>

text \<open>
  C4, as the claim states it, fails: for the search \<open>hello\<close> on the sample document
  the result is Exact, not a prefix match of six keys.
\<close>

theorem searchResult_hello_counterexample:
  "searchResult (initialState\<lparr>search := str ''hello''\<rparr>)
     \<noteq> Some (Prefix 6
          [str ''hello'', str ''hello.from'', str ''hello.from.your'',
           str ''hello.from.your.favourite'', str ''hello.from.your.favourite.yaml'',
           str ''hello.from.your.favourite.yaml.tool''])"
  by code_simp

text \<open>
  C4, amended. For the sample document the search \<open>hello\<close> gives Exact with the
  path \<open>hello\<close> and the pretty-printed mapping stored there, since a mapping is
  truthy. The later tiers are not reached: the suffix tier would find the one key
  \<open>hello\<close>, the prefix tier the six keys of the index.
\<close>

theorem searchResult_hello:
  "searchResult (initialState\<lparr>search := str ''hello''\<rparr>)
     = Some (Exact (str ''hello'')
         (JSON_stringify (JObj [(str ''from'', JObj [(str ''your'', JObj [(str ''favourite'',
            JObj [(str ''yaml'', JObj [(str ''tool'', JStr wave)])])])])])))
   \<and> suffixMatch (initialState\<lparr>search := str ''hello''\<rparr>) (str ''hello'')
     = Some (1, [str ''hello''])
   \<and> prefixMatch (initialState\<lparr>search := str ''hello''\<rparr>) (str ''hello'')
     = Some (6, [str ''hello'', str ''hello.from'', str ''hello.from.your'',
                 str ''hello.from.your.favourite'', str ''hello.from.your.favourite.yaml'',
                 str ''hello.from.your.favourite.yaml.tool''])"
  by code_simp

section \<open>Key indexer: what is descended into\<close>

lemma getDeepKeys_forIn: "forIn a = forIn b \<Longrightarrow> getDeepKeys a = getDeepKeys b"
  by (simp add: getDeepKeys.simps [of a] getDeepKeys.simps [of b])

lemma getDeepKeys_JNull: "getDeepKeys JNull = []"
  by (simp add: getDeepKeys.simps [of JNull])

lemma getDeepKeys_JArr:
  "getDeepKeys (JArr xs) = getDeepKeys (JObj (map (\<lambda>(i, x). (toString i, x)) (enumerate 0 xs)))"
  by (rule getDeepKeys_forIn) simp

lemma subkeys_by_case:
  "(if typeofObject v then map f (getDeepKeys v) else []) =
   map f (case v of
            JObj m \<Rightarrow> getDeepKeys (JObj m)
          | JArr xs \<Rightarrow> getDeepKeys (JObj (map (\<lambda>(i, x). (toString i, x)) (enumerate 0 xs)))
          | _ \<Rightarrow> [])"
  by (cases v) (simp_all add: getDeepKeys_JNull getDeepKeys_JArr)

text \<open>
  C6, as the claim states it, fails: a sequence is descended into, and the indices of
  its elements are listed beneath its key.
\<close>

theorem getDeepKeys_sequence_counterexample:
  "getDeepKeys (JObj [(str ''a'', JArr [JNum 1, JNum 2])])
     = [str ''a'', str ''a.0'', str ''a.1'']"
  by code_simp

text \<open>
  C6, amended. Under a key, a scalar (string, number, boolean) and null are leaves:
  the key is listed and nothing beneath it. A mapping is descended into, and so is a
  sequence: it is indexed as the mapping from the decimal indices of its elements to
  the elements would be, at the root as well as under a key.
\<close>

theorem getDeepKeys_descent:
  "getDeepKeys (JObj kvs) =
     concat (map (\<lambda>(key, v).
                key # map (\<lambda>subkey. key @ dot # subkey)
                        (case v of
                           JObj m \<Rightarrow> getDeepKeys (JObj m)
                         | JArr xs \<Rightarrow>
                             getDeepKeys (JObj (map (\<lambda>(i, x). (toString i, x)) (enumerate 0 xs)))
                         | _ \<Rightarrow> []))
             kvs)
   \<and> getDeepKeys (JArr xs) =
       getDeepKeys (JObj (map (\<lambda>(i, x). (toString i, x)) (enumerate 0 xs)))"
  by (simp add: getDeepKeys.simps [of "JObj kvs"] subkeys_by_case getDeepKeys_JArr [of xs])

section \<open>Listed paths\<close>

subsection \<open>Decimal index keys\<close>

lemma unat_digit: "d < 10 \<Longrightarrow> unat (of_nat (48 + d) :: 16 word) = 48 + d"
  unfolding unat_of_nat by simp

lemma of_nat_digit_inj:
  assumes "a < 10" "b < 10" "(of_nat (48 + a) :: 16 word) = of_nat (48 + b)"
  shows "a = b"
proof -
  from assms(3) have "unat (of_nat (48 + a) :: 16 word) = unat (of_nat (48 + b) :: 16 word)"
    by (rule arg_cong)
  then have "48 + a = 48 + b"
    by (simp only: unat_digit [OF assms(1)] unat_digit [OF assms(2)])
  then show ?thesis by simp
qed

lemma digit_neq:
  assumes "d < 10" "unat c < 48 \<or> 57 < unat c"
  shows "(of_nat (48 + d) :: 16 word) \<noteq> c"
proof
  assume "of_nat (48 + d) = c"
  then have "unat c = 48 + d" using assms(1) unat_digit by blast
  with assms show False by auto
qed

lemma toString_digits: "c \<in> set (toString n) \<Longrightarrow> \<exists>d<10. c = of_nat (48 + d)"
proof (induction n rule: toString.induct)
  case (1 n)
  show ?case
  proof (cases "n < 10")
    case True
    with "1.prems" show ?thesis by (auto simp: toString.simps)
  next
    case False
    with "1.prems" have "c \<in> set (toString (n div 10)) \<or> c = of_nat (48 + n mod 10)"
      by (subst (asm) toString.simps) auto
    then show ?thesis
    proof
      assume "c \<in> set (toString (n div 10))"
      with False "1.IH" show ?thesis by simp
    next
      assume "c = of_nat (48 + n mod 10)"
      moreover have "n mod 10 < 10" by simp
      ultimately show ?thesis by blast
    qed
  qed
qed

lemma toString_dotfree: "dot \<notin> set (toString n)"
proof
  assume "dot \<in> set (toString n)"
  then obtain d where "d < 10" "dot = of_nat (48 + d)"
    using toString_digits by blast
  moreover have "unat dot < 48" by (simp add: dot_def)
  ultimately show False using digit_neq by metis
qed

lemma toString_not_length: "toString n \<noteq> str ''length''"
proof
  assume eq: "toString n = str ''length''"
  have "(0x6C :: 16 word) \<in> set (str ''length'')" by (simp add: str_def)
  with eq obtain d where "d < 10" "(0x6C :: 16 word) = of_nat (48 + d)"
    using toString_digits by metis
  moreover have "57 < unat (0x6C :: 16 word)" by simp
  ultimately show False using digit_neq by metis
qed

lemma toString_nonempty: "toString n \<noteq> []"
  by (subst toString.simps) simp

lemma toString_inj: "toString n = toString m \<Longrightarrow> n = m"
proof (induction n arbitrary: m rule: toString.induct)
  case (1 n)
  show ?case
  proof (cases "n < 10")
    case n: True
    show ?thesis
    proof (cases "m < 10")
      case True
      with n "1.prems" show ?thesis
        by (auto simp: toString.simps dest: of_nat_digit_inj)
    next
      case False
      then have "length (toString m) = Suc (length (toString (m div 10)))"
        by (subst toString.simps) simp
      moreover have "length (toString n) = 1"
        using n by (simp add: toString.simps)
      ultimately show ?thesis using "1.prems" toString_nonempty [of "m div 10"] by simp
    qed
  next
    case n: False
    then have en: "toString n = toString (n div 10) @ [of_nat (48 + n mod 10)]"
      by (subst toString.simps) simp
    show ?thesis
    proof (cases "m < 10")
      case True
      then have "length (toString m) = 1" by (simp add: toString.simps)
      with en "1.prems" toString_nonempty [of "n div 10"] show ?thesis by simp
    next
      case False
      then have em: "toString m = toString (m div 10) @ [of_nat (48 + m mod 10)]"
        by (subst toString.simps) simp
      from en em "1.prems" have a: "toString (n div 10) = toString (m div 10)"
        and b: "(of_nat (48 + n mod 10) :: 16 word) = of_nat (48 + m mod 10)"
        by simp_all
      from a n "1.IH" have "n div 10 = m div 10" by blast
      moreover from b have "n mod 10 = m mod 10"
        by (rule of_nat_digit_inj [rotated 2]) simp_all
      ultimately show ?thesis by (metis div_mult_mod_eq)
    qed
  qed
qed

lemma indexed_keys:
  "map (fst \<circ> (\<lambda>(i, x). (toString i, f x))) (enumerate n xs) = map toString [n..<n + length xs]"
proof -
  have "map (fst \<circ> (\<lambda>(i, x). (toString i, f x))) (enumerate n xs)
          = map (toString \<circ> fst) (enumerate n xs)"
    by (rule map_cong) auto
  also have "\<dots> = map toString (map fst (enumerate n xs))"
    by (simp only: map_map)
  also have "\<dots> = map toString [n..<n + length xs]"
    by (simp only: map_fst_enumerate)
  finally show ?thesis .
qed

lemma indexed_keys_distinct:
  "distinct (map (fst \<circ> (\<lambda>(i, x). (toString i, f x))) (enumerate n xs))"
  unfolding indexed_keys
  by (simp add: distinct_map inj_on_def) (blast dest: toString_inj)

subsection \<open>The properties for-in visits\<close>

lemma forIn_distinct: "wellFormed D \<Longrightarrow> distinct (map fst (forIn D))"
  by (cases D) (simp_all add: indexed_keys_distinct [where f = "\<lambda>x. x"] indexed_keys_distinct [where f = "\<lambda>c. JStr [c]"])

lemma forIn_wellFormed: "wellFormed D \<Longrightarrow> (k, v) \<in> set (forIn D) \<Longrightarrow> wellFormed v"
  by (cases D) (auto simp: in_set_enumerate_eq)

lemma forIn_dotFreeKeys: "dotFreeKeys D \<Longrightarrow> (k, v) \<in> set (forIn D) \<Longrightarrow> dotFreeKeys v"
  by (cases D) (auto simp: in_set_enumerate_eq)

lemma forIn_key_dotfree: "dotFreeKeys D \<Longrightarrow> (k, v) \<in> set (forIn D) \<Longrightarrow> dot \<notin> set k"
  by (cases D) (auto simp: toString_dotfree)

lemma forIn_key_not_length:
  "(k, v) \<in> set (forIn (JArr xs)) \<or> (k, v) \<in> set (forIn (JStr s)) \<Longrightarrow> k \<noteq> str ''length''"
  by (auto simp: toString_not_length toString_not_length [THEN not_sym])

lemma forIn_getProp:
  assumes "wellFormed D" "(k, v) \<in> set (forIn D)"
  shows "getProp D k = Some v"
proof -
  from assms have m: "map_of (forIn D) k = Some v"
    by (simp add: forIn_distinct)
  show ?thesis
  proof (cases D)
    case (JArr xs)
    with assms(2) have "k \<noteq> str ''length''" using forIn_key_not_length by blast
    with m JArr show ?thesis by simp
  next
    case (JStr s)
    with assms(2) have "k \<noteq> str ''length''" using forIn_key_not_length by blast
    with m JStr show ?thesis by simp
  qed (use m assms(2) in auto)
qed

subsection \<open>split and join\<close>

lemma split_nonempty: "split s \<noteq> []"
  by (cases s) (simp_all add: Let_def)

lemma split_dotfree: "dot \<notin> set k \<Longrightarrow> split k = [k]"
  by (induction k) (auto simp: Let_def)

lemma split_append_dot: "dot \<notin> set k \<Longrightarrow> split (k @ dot # s) = k # split s"
  by (induction k) (auto simp: Let_def)

lemma join_Cons: "ps \<noteq> [] \<Longrightarrow> join (k # ps) = k @ dot # join ps"
  by (cases ps) simp_all

lemma join_split: "join (split s) = s"
proof (induction s)
  case Nil
  show ?case by simp
next
  case (Cons c cs)
  show ?case
  proof (cases "c = dot")
    case True
    with Cons show ?thesis by (simp add: join_Cons split_nonempty)
  next
    case False
    obtain p ps where sp: "split cs = p # ps"
      using split_nonempty [of cs] by (cases "split cs") auto
    with Cons have "join (p # ps) = cs" by simp
    then have "join ((c # p) # ps) = c # cs"
      by (cases ps) auto
    with False sp show ?thesis by (simp add: Let_def)
  qed
qed

subsection \<open>Membership in the index\<close>

lemma in_getDeepKeys:
  "p \<in> set (getDeepKeys D) \<longleftrightarrow>
     (\<exists>(k, v) \<in> set (forIn D).
        p = k \<or> (typeofObject v \<and> (\<exists>sub \<in> set (getDeepKeys v). p = k @ dot # sub)))"
  by (subst getDeepKeys.simps) auto

lemma deepGetLoop_step:
  "D \<noteq> JNull \<Longrightarrow> deepGetLoop (Some D) (k # ps) = deepGetLoop (getProp D k) ps"
  by (cases D) simp_all

lemma forIn_not_null: "(k, v) \<in> set (forIn D) \<Longrightarrow> D \<noteq> JNull"
  by auto

lemma listed_path_resolves:
  "p \<in> set (getDeepKeys D) \<Longrightarrow> wellFormed D \<Longrightarrow> dotFreeKeys D \<Longrightarrow>
   D \<noteq> JNull \<and> (\<exists>x. deepGetLoop (Some D) (split p) = Some x)"
proof (induction D arbitrary: p rule: getDeepKeys.induct)
  case (1 obj)
  from "1.prems"(1) obtain k v where kv: "(k, v) \<in> set (forIn obj)"
    and p: "p = k \<or> (typeofObject v \<and> (\<exists>sub \<in> set (getDeepKeys v). p = k @ dot # sub))"
    unfolding in_getDeepKeys [of p obj] by blast
  from kv have nn: "obj \<noteq> JNull" by (rule forIn_not_null)
  note wf = "1.prems"(2) and df = "1.prems"(3)
  have gp: "getProp obj k = Some v" by (rule forIn_getProp [OF wf kv])
  have kd: "dot \<notin> set k" by (rule forIn_key_dotfree [OF df kv])
  have wv: "wellFormed v" by (rule forIn_wellFormed [OF wf kv])
  have dv: "dotFreeKeys v" by (rule forIn_dotFreeKeys [OF df kv])
  from p show ?case
  proof
    assume "p = k"
    with kd nn gp show ?thesis by (simp add: split_dotfree deepGetLoop_step)
  next
    assume "typeofObject v \<and> (\<exists>sub \<in> set (getDeepKeys v). p = k @ dot # sub)"
    then obtain sub where ty: "typeofObject v" and sub: "sub \<in> set (getDeepKeys v)"
      and ps: "p = k @ dot # sub" by blast
    from "1.IH" [OF kv refl ty sub wv dv] obtain x
      where "deepGetLoop (Some v) (split sub) = Some x" by blast
    with ps kd nn gp show ?thesis by (simp add: split_append_dot deepGetLoop_step)
  qed
qed

lemma falsy_cases: "\<not> truthy x \<longleftrightarrow> x \<in> {JStr [], JNum 0, JNaN, JBool False, JNull}"
  by (cases x) auto

text \<open>
  C1, as the claim states it, fails in three ways. A key that contains a dot is listed
  as it is, but the search for it is cut at the dot and finds nothing at the first
  part: the truthy value 1 stored under \<open>a.b\<close> gives a suffix match, not Exact. The
  listed path of an empty key is the empty string, for which there is no result. And
  NaN, which is none of the empty string, 0, false and null, is falsy as well: the
  search for the key it is stored under gives a suffix match.
\<close>

theorem listed_path_counterexample:
  "getDeepKeys (JObj [(str ''a.b'', JNum 1)]) = [str ''a.b'']
   \<and> getProp (JObj [(str ''a.b'', JNum 1)]) (str ''a.b'') = Some (JNum 1)
   \<and> truthy (JNum 1)
   \<and> searchResult \<lparr>parsedYaml = JObj [(str ''a.b'', JNum 1)],
                     keys = getDeepKeys (JObj [(str ''a.b'', JNum 1)]),
                     search = str ''a.b'', comparison = [], yamlInput = [], console = []\<rparr>
     = Some (Suffix 1 [str ''a.b''])
   \<and> getDeepKeys (JObj [([], JNum 1)]) = [[]]
   \<and> searchResult \<lparr>parsedYaml = JObj [([], JNum 1)],
                     keys = getDeepKeys (JObj [([], JNum 1)]),
                     search = [], comparison = [], yamlInput = [], console = []\<rparr>
     = None
   \<and> getDeepKeys (JObj [(str ''a'', JNaN)]) = [str ''a'']
   \<and> getProp (JObj [(str ''a'', JNaN)]) (str ''a'') = Some JNaN
   \<and> JNaN \<notin> {JStr [], JNum 0, JBool False, JNull}
   \<and> searchResult \<lparr>parsedYaml = JObj [(str ''a'', JNaN)],
                     keys = getDeepKeys (JObj [(str ''a'', JNaN)]),
                     search = str ''a'', comparison = [], yamlInput = [], console = []\<rparr>
     = Some (Suffix 1 [str ''a''])"
  by code_simp

text \<open>
  C1, amended. Let no key of the tree contain a dot (the tree being well formed, as
  every parsed document is), and let \<open>P\<close> be a non-empty path of its index. Then
  the walk along the parts of \<open>P\<close> finds a value. If the value is truthy the result
  is Exact with the path \<open>P\<close> and the serialised value. If it is falsy, which it is
  exactly as the empty string, 0, NaN, false or null, the exact tier finds nothing and
  the suffix tier answers with a match that lists \<open>P\<close>.
\<close>

theorem listed_path_exact:
  assumes "wellFormed D" and "dotFreeKeys D"
    and "P \<in> set (getDeepKeys D)" and "P \<noteq> []"
    and "parsedYaml st = D" and "keys st = getDeepKeys D" and "search st = P"
  shows "\<exists>x. propertyOf D (split P) = Some x
           \<and> (truthy x \<longrightarrow> searchResult st = Some (Exact P (JSON_stringify x)))
           \<and> (\<not> truthy x \<longleftrightarrow> x \<in> {JStr [], JNum 0, JNaN, JBool False, JNull})
           \<and> (\<not> truthy x \<longrightarrow>
                exactMatch st (split P) = None
                \<and> (\<exists>n ks. searchResult st = Some (Suffix n ks) \<and> P \<in> set ks))"
proof -
  from listed_path_resolves [OF assms(3) assms(1) assms(2)]
  obtain x where nn: "D \<noteq> JNull" and x: "deepGetLoop (Some D) (split P) = Some x"
    by blast
  from nn x have found: "propertyOf D (split P) = Some x"
    by (simp add: propertyOf_def deepGet_def split_nonempty)
  have hit: "truthy x \<Longrightarrow> searchResult st = Some (Exact P (JSON_stringify x))"
    using found assms(4,5,7) by (simp add: searchResult_def exactMatch_def join_split)
  have miss: "\<not> truthy x \<Longrightarrow> exactMatch st (split P) = None"
    using found assms(5) by (simp add: exactMatch_def)
  have mem: "P \<in> set (filter (\<lambda>key. endsWith key P) (keys st))"
    using assms(3,6) by (simp add: endsWith_refl)
  then have "filter (\<lambda>key. endsWith key P) (keys st) \<noteq> []"
    by (metis empty_iff empty_set)
  with mem have "\<exists>n ks. suffixMatch st P = Some (n, ks) \<and> P \<in> set ks"
    by (simp add: suffixMatch_def Let_def)
  with miss assms(4,7)
  have fall: "\<not> truthy x \<Longrightarrow> \<exists>n ks. searchResult st = Some (Suffix n ks) \<and> P \<in> set ks"
    by (auto simp: searchResult_def)
  from found hit miss fall falsy_cases [of x] show ?thesis by blast
qed

theorem listed_path_exact_witness:
  "searchResult (initialState\<lparr>search := str ''hello.from.your.favourite.yaml.tool''\<rparr>)
     = Some (Exact (str ''hello.from.your.favourite.yaml.tool'') (JSON_stringify (JStr wave)))
   \<and> (\<exists>n ks. searchResult \<lparr>parsedYaml = JObj [(str ''flag'', JBool False)],
                               keys = getDeepKeys (JObj [(str ''flag'', JBool False)]),
                               search = str ''flag'', comparison = [], yamlInput = [],
                               console = []\<rparr>
               = Some (Suffix n ks) \<and> str ''flag'' \<in> set ks)
   \<and> (\<exists>n ks. searchResult \<lparr>parsedYaml = JObj [(str ''ratio'', JNaN)],
                               keys = getDeepKeys (JObj [(str ''ratio'', JNaN)]),
                               search = str ''ratio'', comparison = [], yamlInput = [],
                               console = []\<rparr>
               = Some (Suffix n ks) \<and> str ''ratio'' \<in> set ks)"
proof -
  let ?P = "str ''hello.from.your.favourite.yaml.tool''"
  let ?st = "initialState\<lparr>search := ?P\<rparr>"
  have wf: "wellFormed parsedDefaultYaml" by code_simp
  have df: "dotFreeKeys parsedDefaultYaml" by code_simp
  have listed: "?P \<in> set (getDeepKeys parsedDefaultYaml)" by code_simp
  have ne: "?P \<noteq> []" by code_simp
  have doc: "parsedYaml ?st = parsedDefaultYaml" by (simp add: initialState_def)
  have idx: "keys ?st = getDeepKeys parsedDefaultYaml" by (simp add: initialState_def)
  have q: "search ?st = ?P" by simp
  have walk: "propertyOf parsedDefaultYaml (split ?P) = Some (JStr wave)" by code_simp
  have tr: "truthy (JStr wave)" by code_simp
  from listed_path_exact [OF wf df listed ne doc idx q] walk tr
  have truthy_case: "searchResult ?st = Some (Exact ?P (JSON_stringify (JStr wave)))"
    by auto
  let ?D = "JObj [(str ''flag'', JBool False)]"
  let ?Q = "str ''flag''"
  let ?st' = "\<lparr>parsedYaml = ?D, keys = getDeepKeys ?D, search = ?Q, comparison = [],
               yamlInput = [], console = []\<rparr>"
  have wf': "wellFormed ?D" by code_simp
  have df': "dotFreeKeys ?D" by code_simp
  have listed': "?Q \<in> set (getDeepKeys ?D)" by code_simp
  have ne': "?Q \<noteq> []" by code_simp
  have walk': "propertyOf ?D (split ?Q) = Some (JBool False)" by code_simp
  from listed_path_exact [OF wf' df' listed' ne', of ?st'] walk'
  have falsy_case: "\<exists>n ks. searchResult ?st' = Some (Suffix n ks) \<and> ?Q \<in> set ks"
    by auto
  let ?N = "JObj [(str ''ratio'', JNaN)]"
  let ?R = "str ''ratio''"
  let ?st'' = "\<lparr>parsedYaml = ?N, keys = getDeepKeys ?N, search = ?R, comparison = [],
               yamlInput = [], console = []\<rparr>"
  have wf'': "wellFormed ?N" by code_simp
  have df'': "dotFreeKeys ?N" by code_simp
  have listed'': "?R \<in> set (getDeepKeys ?N)" by code_simp
  have ne'': "?R \<noteq> []" by code_simp
  have walk'': "propertyOf ?N (split ?R) = Some JNaN" by code_simp
  from listed_path_exact [OF wf'' df'' listed'' ne'', of ?st''] walk''
  have nan_case: "\<exists>n ks. searchResult ?st'' = Some (Suffix n ks) \<and> ?R \<in> set ks"
    by auto
  from truthy_case falsy_case nan_case show ?thesis by blast
qed

subsection \<open>Each path once, parents first\<close>

lemma distinct_concat_tagged:
  assumes "distinct (map fst kvs)"
    and "\<And>k v. (k, v) \<in> set kvs \<Longrightarrow> distinct (B k v)"
    and "\<And>k v p. (k, v) \<in> set kvs \<Longrightarrow> p \<in> set (B k v) \<Longrightarrow> tag p = k"
  shows "distinct (concat (map (\<lambda>(k, v). B k v) kvs))"
  using assms
proof (induction kvs)
  case Nil
  show ?case by simp
next
  case (Cons kv kvs)
  obtain k v where kv: "kv = (k, v)" by (cases kv)
  have d: "distinct (B k v)" using Cons.prems(2) kv by simp
  have rest: "distinct (concat (map (\<lambda>(k, v). B k v) kvs))"
  proof (rule Cons.IH)
    show "distinct (map fst kvs)" using Cons.prems(1) by simp
    show "distinct (B k v)" if "(k, v) \<in> set kvs" for k v
      using Cons.prems(2) that by simp
    show "tag p = k" if "(k, v) \<in> set kvs" "p \<in> set (B k v)" for k v p
      using Cons.prems(3) [of k v p] that by simp
  qed
  have "p \<notin> set (concat (map (\<lambda>(k, v). B k v) kvs))" if p: "p \<in> set (B k v)" for p
  proof
    assume "p \<in> set (concat (map (\<lambda>(k, v). B k v) kvs))"
    then obtain k' v' where in': "(k', v') \<in> set kvs" and p': "p \<in> set (B k' v')"
      by auto
    from Cons.prems(3) [of k v p] p kv have "tag p = k" by simp
    moreover from Cons.prems(3) [of k' v' p] in' p' have "tag p = k'" by simp
    ultimately have "k \<in> fst ` set kvs" using in' by force
    with Cons.prems(1) kv show False by simp
  qed
  with d rest kv show ?case by auto
qed

lemma distinct_getDeepKeys:
  "wellFormed D \<Longrightarrow> dotFreeKeys D \<Longrightarrow> distinct (getDeepKeys D)"
proof (induction D rule: getDeepKeys.induct)
  case (1 obj)
  note wf = "1.prems"(1) and df = "1.prems"(2)
  let ?B = "\<lambda>k v. k # (if typeofObject v
                          then map (\<lambda>subkey. k @ dot # subkey) (getDeepKeys v) else [])"
  have "distinct (concat (map (\<lambda>(k, v). ?B k v) (forIn obj)))"
  proof (rule distinct_concat_tagged [where tag = "\<lambda>p. hd (split p)"])
    show "distinct (map fst (forIn obj))" by (rule forIn_distinct [OF wf])
  next
    fix k v assume kv: "(k, v) \<in> set (forIn obj)"
    have kd: "dot \<notin> set k" by (rule forIn_key_dotfree [OF df kv])
    have "distinct (getDeepKeys v)" if "typeofObject v"
      using "1.IH" [OF kv refl that forIn_wellFormed [OF wf kv] forIn_dotFreeKeys [OF df kv]] .
    moreover have "inj_on (\<lambda>subkey. k @ dot # subkey) A" for A
      by (simp add: inj_on_def)
    moreover have "k \<notin> (\<lambda>subkey. k @ dot # subkey) ` A" for A
      by auto
    ultimately show "distinct (?B k v)" by (simp add: distinct_map)
  next
    fix k v p assume kv: "(k, v) \<in> set (forIn obj)" and p: "p \<in> set (?B k v)"
    have kd: "dot \<notin> set k" by (rule forIn_key_dotfree [OF df kv])
    from p have "p = k \<or> (\<exists>sub. p = k @ dot # sub)" by (auto split: if_splits)
    with kd show "hd (split p) = k" by (auto simp: split_dotfree split_append_dot)
  qed
  then show ?case by (subst getDeepKeys.simps) simp
qed

lemma reachable_listed: "mappingReachable D ks \<Longrightarrow> join ks \<in> set (getDeepKeys D)"
proof (induction D ks rule: mappingReachable.induct)
  case (1 kvs k ks)
  from "1.prems" obtain v where m: "map_of kvs k = Some v"
    and r: "ks = [] \<or> mappingReachable v ks"
    by (auto split: option.splits)
  from m have kv: "(k, v) \<in> set (forIn (JObj kvs))" by (simp add: map_of_SomeD)
  show ?case
  proof (cases "ks = []")
    case True
    with kv show ?thesis unfolding in_getDeepKeys [of _ "JObj kvs"] by force
  next
    case False
    with r have rv: "mappingReachable v ks" by simp
    then have ty: "typeofObject v" by (cases v) simp_all
    from "1.IH" [OF m rv] have "join ks \<in> set (getDeepKeys v)" .
    with kv ty False show ?thesis
      unfolding in_getDeepKeys [of _ "JObj kvs"] by (force simp: join_Cons)
  qed
qed simp_all

lemma getDeepKeys_at_entry:
  assumes "forIn D = pre @ (k, v) # post" and "typeofObject v"
  shows "\<exists>before after.
           getDeepKeys D
             = before @ k # map (\<lambda>subkey. k @ dot # subkey) (getDeepKeys v) @ after"
  using assms by (subst getDeepKeys.simps) auto

lemma ancestor_earlier:
  "p \<in> set (getDeepKeys D) \<Longrightarrow> dotFreeKeys D \<Longrightarrow> 1 < length (split p) \<Longrightarrow>
   \<exists>ys zs. getDeepKeys D = ys @ p # zs \<and> join (butlast (split p)) \<in> set ys"
proof (induction D arbitrary: p rule: getDeepKeys.induct)
  case (1 obj)
  note df = "1.prems"(2) and long = "1.prems"(3)
  let ?f = "\<lambda>k subkey. k @ dot # subkey"
  from "1.prems"(1) obtain k v where kv: "(k, v) \<in> set (forIn obj)"
    and p: "p = k \<or> (typeofObject v \<and> (\<exists>sub \<in> set (getDeepKeys v). p = k @ dot # sub))"
    unfolding in_getDeepKeys [of p obj] by blast
  have kd: "dot \<notin> set k" by (rule forIn_key_dotfree [OF df kv])
  have dv: "dotFreeKeys v" by (rule forIn_dotFreeKeys [OF df kv])
  from long kd have "p \<noteq> k" by (auto simp: split_dotfree)
  with p obtain sub where ty: "typeofObject v" and sub: "sub \<in> set (getDeepKeys v)"
    and ps: "p = k @ dot # sub" by blast
  from kv obtain pre post where "forIn obj = pre @ (k, v) # post"
    by (meson split_list)
  from getDeepKeys_at_entry [OF this ty] obtain before after
    where whole: "getDeepKeys obj = before @ k # map (?f k) (getDeepKeys v) @ after"
    by blast
  have sp: "split p = k # split sub" using ps kd by (simp add: split_append_dot)
  have "\<exists>ys' zs'. getDeepKeys v = ys' @ sub # zs'
          \<and> join (butlast (split p)) \<in> set (k # map (?f k) ys')"
  proof (cases "1 < length (split sub)")
    case True
    from "1.IH" [OF kv refl ty sub dv True] obtain ys' zs'
      where v: "getDeepKeys v = ys' @ sub # zs'"
        and anc: "join (butlast (split sub)) \<in> set ys'" by blast
    from True have ne: "butlast (split sub) \<noteq> []"
      by (cases "split sub" rule: rev_cases) auto
    from True have "butlast (split p) = k # butlast (split sub)"
      using sp by auto
    then have "join (butlast (split p)) = ?f k (join (butlast (split sub)))"
      using ne by (simp add: join_Cons)
    with anc have "join (butlast (split p)) \<in> set (map (?f k) ys')" by simp
    with v show ?thesis by auto
  next
    case False
    then have "length (split sub) = 1"
      using split_nonempty [of sub] by (cases "split sub") auto
    then have "butlast (split p) = [k]"
      using sp by (cases "split sub") auto
    then have "join (butlast (split p)) = k" by simp
    moreover from sub obtain ys' zs' where "getDeepKeys v = ys' @ sub # zs'"
      by (meson split_list)
    ultimately show ?thesis by auto
  qed
  then obtain ys' zs' where v: "getDeepKeys v = ys' @ sub # zs'"
    and anc: "join (butlast (split p)) \<in> set (k # map (?f k) ys')" by blast
  from whole v ps
  have "getDeepKeys obj = (before @ k # map (?f k) ys') @ p # (map (?f k) zs' @ after)"
    by simp
  moreover from anc have "join (butlast (split p)) \<in> set (before @ k # map (?f k) ys')"
    by auto
  ultimately show ?case by blast
qed

lemma beneath_iff: "startsWith q (p @ [dot]) \<longleftrightarrow> (\<exists>rest. q = p @ dot # rest)"
  by (simp add: startsWith_iff)

lemma listed_first_part:
  assumes "q \<in> set (getDeepKeys E)"
    and "\<And>k v. (k, v) \<in> set (forIn E) \<Longrightarrow> dot \<notin> set k"
  shows "hd (split q) \<in> fst ` set (forIn E)"
proof -
  from assms(1) obtain k v where kv: "(k, v) \<in> set (forIn E)"
    and q: "q = k \<or> (\<exists>sub. q = k @ dot # sub)"
    unfolding in_getDeepKeys [of q E] by blast
  from assms(2) [OF kv] q have "hd (split q) = k"
    by (auto simp: split_dotfree split_append_dot)
  with kv show ?thesis by force
qed

lemma beneath_first_part:
  assumes "dot \<notin> set k" and "p = k \<or> (\<exists>sub. p = k @ dot # sub)"
    and "startsWith q (p @ [dot])"
  shows "hd (split q) = k"
proof -
  from assms(3) obtain rest where "q = p @ dot # rest"
    unfolding beneath_iff by blast
  with assms(2) obtain more where "q = k @ dot # more" by auto
  with assms(1) show ?thesis by (simp add: split_append_dot)
qed

lemma getDeepKeys_around_entry:
  assumes "forIn D = pre @ (k, v) # post"
  shows "getDeepKeys D =
           getDeepKeys (JObj pre)
           @ k # (if typeofObject v then map (\<lambda>subkey. k @ dot # subkey) (getDeepKeys v) else [])
           @ getDeepKeys (JObj post)"
  by (simp add: getDeepKeys.simps [of D] getDeepKeys.simps [of "JObj pre"]
        getDeepKeys.simps [of "JObj post"] assms)

lemma descendants_follow:
  "p \<in> set (getDeepKeys D) \<Longrightarrow> wellFormed D \<Longrightarrow> dotFreeKeys D \<Longrightarrow>
   \<exists>ys ds zs. getDeepKeys D = ys @ p # ds @ zs
     \<and> (\<forall>q \<in> set ds. startsWith q (p @ [dot]))
     \<and> (\<forall>q \<in> set ys \<union> set zs. \<not> startsWith q (p @ [dot]))"
proof (induction D arbitrary: p rule: getDeepKeys.induct)
  case (1 obj)
  note wf = "1.prems"(2) and df = "1.prems"(3)
  let ?f = "\<lambda>k subkey. k @ dot # subkey"
  from "1.prems"(1) obtain k v where kv: "(k, v) \<in> set (forIn obj)"
    and p: "p = k \<or> (typeofObject v \<and> (\<exists>sub \<in> set (getDeepKeys v). p = k @ dot # sub))"
    unfolding in_getDeepKeys [of p obj] by blast
  have kd: "dot \<notin> set k" by (rule forIn_key_dotfree [OF df kv])
  have wv: "wellFormed v" by (rule forIn_wellFormed [OF wf kv])
  have dv: "dotFreeKeys v" by (rule forIn_dotFreeKeys [OF df kv])
  from kv obtain pre post where parts: "forIn obj = pre @ (k, v) # post"
    by (meson split_list)
  let ?A = "getDeepKeys (JObj pre)" and ?C = "getDeepKeys (JObj post)"
  let ?B = "if typeofObject v then map (?f k) (getDeepKeys v) else []"
  have whole: "getDeepKeys obj = ?A @ k # ?B @ ?C"
    by (rule getDeepKeys_around_entry [OF parts])
  have shape: "p = k \<or> (\<exists>sub. p = k @ dot # sub)" using p by blast
  have others: "k \<notin> fst ` (set pre \<union> set post)"
    using forIn_distinct [OF wf] parts by auto
  have outside: "\<not> startsWith q (p @ [dot])" if q: "q \<in> set ?A \<union> set ?C" for q
  proof
    assume b: "startsWith q (p @ [dot])"
    have "hd (split q) \<in> fst ` (set pre \<union> set post)"
    proof -
      have "dot \<notin> set k'" if "(k', v') \<in> set pre \<union> set post" for k' v'
        using that parts forIn_key_dotfree [OF df, of k' v'] by auto
      then have "hd (split q) \<in> fst ` set (forIn (JObj pre))" if "q \<in> set ?A"
        using that by (intro listed_first_part) auto
      moreover have "hd (split q) \<in> fst ` set (forIn (JObj post))" if "q \<in> set ?C"
        using that \<open>\<And>k' v'. (k', v') \<in> set pre \<union> set post \<Longrightarrow> dot \<notin> set k'\<close>
        by (intro listed_first_part) auto
      ultimately show ?thesis using q by auto
    qed
    moreover have "hd (split q) = k" by (rule beneath_first_part [OF kd shape b])
    ultimately show False using others by simp
  qed
  from p show ?case
  proof
    assume pk: "p = k"
    have "\<forall>q \<in> set ?B. startsWith q (p @ [dot])"
      using pk by (auto simp: beneath_iff)
    with whole pk outside show ?thesis by blast
  next
    assume "typeofObject v \<and> (\<exists>sub \<in> set (getDeepKeys v). p = k @ dot # sub)"
    then obtain sub where ty: "typeofObject v" and sub: "sub \<in> set (getDeepKeys v)"
      and ps: "p = k @ dot # sub" by blast
    from "1.IH" [OF kv refl ty sub wv dv] obtain ys' ds' zs'
      where v: "getDeepKeys v = ys' @ sub # ds' @ zs'"
        and inner: "\<forall>q \<in> set ds'. startsWith q (sub @ [dot])"
        and outer: "\<forall>q \<in> set ys' \<union> set zs'. \<not> startsWith q (sub @ [dot])"
      by blast
    have lift: "startsWith (?f k s) (p @ [dot]) \<longleftrightarrow> startsWith s (sub @ [dot])" for s
      unfolding ps by (simp add: startsWith_iff)
    have knot: "\<not> startsWith k (p @ [dot])"
      unfolding ps by (simp add: startsWith_iff)
    let ?ys = "?A @ k # map (?f k) ys'" and ?ds = "map (?f k) ds'"
    let ?zs = "map (?f k) zs' @ ?C"
    have eq: "getDeepKeys obj = ?ys @ p # ?ds @ ?zs"
      using whole v ps ty by simp
    have d: "\<forall>q \<in> set ?ds. startsWith q (p @ [dot])"
      using inner lift by auto
    have o: "\<forall>q \<in> set ?ys \<union> set ?zs. \<not> startsWith q (p @ [dot])"
      using outer lift knot outside by auto
    from eq d o show ?thesis by blast
  qed
qed

lemma count_list_distinct: "distinct xs \<Longrightarrow> x \<in> set xs \<Longrightarrow> count_list xs x = 1"
  by (induction xs) auto

text \<open>
  C5, as the claim states it, fails when a key contains a dot: below, the dotted path
  \<open>a.b\<close> of the first key is also the path of the key \<open>b\<close> under \<open>a\<close>, so it is
  listed twice, and at its first place its parent \<open>a\<close> has not been listed yet.
\<close>

theorem index_once_counterexample:
  "wellFormed (JObj [(str ''a.b'', JNum 1), (str ''a'', JObj [(str ''b'', JNum 2)])])
   \<and> getDeepKeys (JObj [(str ''a.b'', JNum 1), (str ''a'', JObj [(str ''b'', JNum 2)])])
     = [str ''a.b'', str ''a'', str ''a.b'']
   \<and> mappingReachable (JObj [(str ''a.b'', JNum 1), (str ''a'', JObj [(str ''b'', JNum 2)])])
       [str ''a'', str ''b'']
   \<and> count_list
       (getDeepKeys (JObj [(str ''a.b'', JNum 1), (str ''a'', JObj [(str ''b'', JNum 2)])]))
       (join [str ''a'', str ''b'']) = 2
   \<and> split (str ''a.b'') = [str ''a'', str ''b'']"
  by code_simp

text \<open>
  C5, amended. Let no key of the tree contain a dot. Then the index has no path twice;
  the dotted path of every non-empty key sequence that can be walked through mappings
  is listed, exactly once; every listed path of more than one part stands behind its
  parent path, the path without its last part; and the order is depth-first pre-order,
  parents before all of their descendants: every listed path is followed at once by
  the listed paths beneath it, those that start with the path and a dot, and by them
  only, so that no path beneath it stands before it or behind that block.
\<close>

theorem index_once_parents_first:
  assumes "wellFormed D" and "dotFreeKeys D"
  shows "distinct (getDeepKeys D)
       \<and> (\<forall>ks. mappingReachable D ks \<longrightarrow> count_list (getDeepKeys D) (join ks) = 1)
       \<and> (\<forall>p \<in> set (getDeepKeys D). 1 < length (split p) \<longrightarrow>
             (\<exists>ys zs. getDeepKeys D = ys @ p # zs \<and> join (butlast (split p)) \<in> set ys))
       \<and> (\<forall>p \<in> set (getDeepKeys D).
             \<exists>ys ds zs. getDeepKeys D = ys @ p # ds @ zs
               \<and> (\<forall>q \<in> set ds. startsWith q (p @ [dot]))
               \<and> (\<forall>q \<in> set ys \<union> set zs. \<not> startsWith q (p @ [dot])))"
proof -
  have d: "distinct (getDeepKeys D)"
    by (rule distinct_getDeepKeys [OF assms])
  have "count_list (getDeepKeys D) (join ks) = 1" if "mappingReachable D ks" for ks
    by (rule count_list_distinct [OF d reachable_listed [OF that]])
  moreover have "\<exists>ys zs. getDeepKeys D = ys @ p # zs \<and> join (butlast (split p)) \<in> set ys"
    if "p \<in> set (getDeepKeys D)" "1 < length (split p)" for p
    by (rule ancestor_earlier [OF that(1) assms(2) that(2)])
  moreover have "\<exists>ys ds zs. getDeepKeys D = ys @ p # ds @ zs
      \<and> (\<forall>q \<in> set ds. startsWith q (p @ [dot]))
      \<and> (\<forall>q \<in> set ys \<union> set zs. \<not> startsWith q (p @ [dot]))"
    if "p \<in> set (getDeepKeys D)" for p
    by (rule descendants_follow [OF that assms])
  ultimately show ?thesis using d by blast
qed

theorem index_once_parents_first_witness:
  "distinct (getDeepKeys parsedDefaultYaml)
   \<and> count_list (getDeepKeys parsedDefaultYaml) (str ''hello.from'') = 1
   \<and> (\<exists>ys zs. getDeepKeys parsedDefaultYaml = ys @ str ''hello.from'' # zs
          \<and> str ''hello'' \<in> set ys)
   \<and> (\<exists>ys ds zs. getDeepKeys parsedDefaultYaml = ys @ str ''hello.from'' # ds @ zs
          \<and> (\<forall>q \<in> set ds. startsWith q (str ''hello.from'' @ [dot]))
          \<and> (\<forall>q \<in> set ys \<union> set zs. \<not> startsWith q (str ''hello.from'' @ [dot])))"
proof -
  have wf: "wellFormed parsedDefaultYaml" by code_simp
  have df: "dotFreeKeys parsedDefaultYaml" by code_simp
  have reach: "mappingReachable parsedDefaultYaml [str ''hello'', str ''from'']" by code_simp
  have j: "join [str ''hello'', str ''from''] = str ''hello.from''" by code_simp
  have listed: "str ''hello.from'' \<in> set (getDeepKeys parsedDefaultYaml)" by code_simp
  have long: "1 < length (split (str ''hello.from''))" by code_simp
  have parent: "join (butlast (split (str ''hello.from''))) = str ''hello''" by code_simp
  note main = index_once_parents_first [OF wf df]
  from main have "distinct (getDeepKeys parsedDefaultYaml)" by blast
  moreover from main reach
  have "count_list (getDeepKeys parsedDefaultYaml) (join [str ''hello'', str ''from'']) = 1"
    by blast
  moreover from main listed long
  have "\<exists>ys zs. getDeepKeys parsedDefaultYaml = ys @ str ''hello.from'' # zs
          \<and> join (butlast (split (str ''hello.from''))) \<in> set ys"
    by blast
  moreover from main listed
  have "\<exists>ys ds zs. getDeepKeys parsedDefaultYaml = ys @ str ''hello.from'' # ds @ zs
          \<and> (\<forall>q \<in> set ds. startsWith q (str ''hello.from'' @ [dot]))
          \<and> (\<forall>q \<in> set ys \<union> set zs. \<not> startsWith q (str ''hello.from'' @ [dot]))"
    by blast
  ultimately show ?thesis by (simp only: j parent)
qed

end
